theory Spec2Isabelle
  imports Main "HOL-Library.Char_ord" "HOL-Library.List_Lexorder" "HOL-Library.Multiset"
begin

section \<open>muxyard: session directory, orchestrator, repository scanner, state machine\<close>

text \<open>
  A shallow embedding of the Go packages \<^verbatim>\<open>internal/tmux\<close>, \<^verbatim>\<open>internal/git\<close> and
  \<^verbatim>\<open>internal/ui\<close>. Go strings are byte strings and are modelled as \<^typ>\<open>string\<close>; Go's
  \<^verbatim>\<open>int\<close> is modelled as \<^typ>\<open>int\<close> (the only arithmetic on it is the counter of
  \<^verbatim>\<open>GenerateSessionName\<close>, which never exceeds the number of sessions plus one, and list indices).
\<close>

subsection \<open>Standard-library string and path helpers (Unix)\<close>

text \<open>\<^verbatim>\<open>os.IsPathSeparator\<close> on Unix.\<close>

definition IsPathSeparator :: "char \<Rightarrow> bool" where
  "IsPathSeparator c = (c = CHR ''/'')"

text \<open>\<^verbatim>\<open>strings.HasPrefix\<close>, \<^verbatim>\<open>strings.TrimPrefix\<close>, and \<^verbatim>\<open>strings.Count\<close> for a
  one-byte separator.\<close>

definition HasPrefix :: "string \<Rightarrow> string \<Rightarrow> bool" where
  "HasPrefix s p = (take (length p) s = p)"

definition TrimPrefix :: "string \<Rightarrow> string \<Rightarrow> string" where
  "TrimPrefix s p = (if HasPrefix s p then drop (length p) s else s)"

definition Count :: "string \<Rightarrow> char \<Rightarrow> nat" where
  "Count s c = length (filter (\<lambda>x. x = c) s)"

text \<open>\<^verbatim>\<open>strings.Split(s, sep)\<close> for a one-byte separator: the pieces between the
  occurrences of the separator, always at least one piece.\<close>

fun Split :: "string \<Rightarrow> char \<Rightarrow> string list" where
  "Split [] sep = [[]]"
| "Split (c # cs) sep =
     (if c = sep then [] # Split cs sep
      else (case Split cs sep of p # ps \<Rightarrow> (c # p) # ps | [] \<Rightarrow> [[c]]))"

text \<open>\<^verbatim>\<open>strings.Join\<close>.\<close>

fun Join :: "string list \<Rightarrow> string \<Rightarrow> string" where
  "Join [] sep = []"
| "Join [x] sep = x"
| "Join (x # y # ys) sep = x @ sep @ Join (y # ys) sep"

text \<open>\<^verbatim>\<open>filepath.Base\<close>: the last element of the path, after stripping trailing
  slashes; \<^verbatim>\<open>"."\<close> for the empty path and \<^verbatim>\<open>"/"\<close> for a path of slashes only.\<close>

definition Base :: "string \<Rightarrow> string" where
  "Base path =
     (if path = [] then ''.''
      else let stripped = rev (dropWhile IsPathSeparator (rev path));
               elem = rev (takeWhile (\<lambda>c. \<not> IsPathSeparator c) (rev stripped))
           in if elem = [] then ''/'' else elem)"

subsection \<open>Decimal formatting (\<^verbatim>\<open>%d\<close>)\<close>

definition digit_char :: "nat \<Rightarrow> char" where
  "digit_char d = ''0123456789'' ! d"

fun nat_digits :: "nat \<Rightarrow> string" where
  "nat_digits n = (if n < 10 then [digit_char n] else nat_digits (n div 10) @ [digit_char (n mod 10)])"

declare nat_digits.simps [simp del]

definition Itoa :: "int \<Rightarrow> string" where
  "Itoa i = (if i < 0 then CHR ''-'' # nat_digits (nat (- i)) else nat_digits (nat i))"

subsection \<open>Package tmux: sessions and unique names\<close>

record Session =
  Name :: string
  Windows :: int
  Attached :: bool

text \<open>\<^verbatim>\<open>fmt.Sprintf("%s_%d", baseName, counter)\<close>.\<close>

definition Sprintf_s_d :: "string \<Rightarrow> int \<Rightarrow> string" where
  "Sprintf_s_d baseName counter = baseName @ ''_'' @ Itoa counter"

text \<open>The inner loop of \<^verbatim>\<open>GenerateSessionName\<close>: does some session carry the name?\<close>

fun name_exists :: "Session list \<Rightarrow> string \<Rightarrow> bool" where
  "name_exists [] name = False"
| "name_exists (session # rest) name = (if Name session = name then True else name_exists rest name)"

text \<open>The outer \<^verbatim>\<open>for\<close> loop, with the loop variables \<^verbatim>\<open>counter\<close> and \<^verbatim>\<open>name\<close> as
  arguments. It returns the final counter with the name.\<close>

function name_loop :: "string \<Rightarrow> Session list \<Rightarrow> int \<Rightarrow> string \<Rightarrow> int \<times> string" where
  "name_loop baseName existingSessions counter name =
     (if name_exists existingSessions name
      then name_loop baseName existingSessions (counter + 1) (Sprintf_s_d baseName (counter + 1))
      else (counter, name))"
  by pat_completeness auto


lemma digit_char_inj: "a < 10 \<Longrightarrow> b < 10 \<Longrightarrow> digit_char a = digit_char b \<Longrightarrow> a = b"
proof -
  assume a: "a < 10" and b: "b < 10" and e: "digit_char a = digit_char b"
  have d: "distinct ''0123456789''" by simp
  have "length ''0123456789'' = 10" by simp
  with a b e d show ?thesis unfolding digit_char_def
    by (metis nth_eq_iff_index_eq)
qed

lemma digit_char_not_minus: "d < 10 \<Longrightarrow> digit_char d \<noteq> CHR ''-''"
proof -
  assume "d < 10"
  moreover have "length ''0123456789'' = 10" by simp
  ultimately have "digit_char d \<in> set ''0123456789''" unfolding digit_char_def by (metis nth_mem)
  then show ?thesis by auto
qed

lemma nat_digits_ne: "nat_digits n \<noteq> []"
  by (subst nat_digits.simps) simp

lemma nat_digits_ne': "[] \<noteq> nat_digits n"
  using nat_digits_ne[of n] by auto

lemma nat_digits_hd: "hd (nat_digits n) \<noteq> CHR ''-''"
proof (induction n rule: nat_digits.induct)
  case (1 n)
  show ?case
  proof (cases "n < 10")
    case True
    then show ?thesis by (subst nat_digits.simps) (simp add: digit_char_not_minus)
  next
    case False
    with 1 show ?thesis by (subst nat_digits.simps) (simp add: nat_digits_ne)
  qed
qed

lemma nat_digits_inj: "nat_digits n = nat_digits m \<Longrightarrow> n = m"
proof (induction n arbitrary: m rule: nat_digits.induct)
  case (1 n)
  show ?case
  proof (cases "n < 10")
    case n: True
    show ?thesis
    proof (cases "m < 10")
      case True
      with n 1(2) show ?thesis
        by (simp add: nat_digits.simps[of n] nat_digits.simps[of m] digit_char_inj)
    next
      case False
      with n 1(2) show ?thesis
        by (simp add: nat_digits.simps[of n] nat_digits.simps[of m] nat_digits_ne nat_digits_ne')
    qed
  next
    case n: False
    show ?thesis
    proof (cases "m < 10")
      case True
      with n 1(2) show ?thesis
        by (simp add: nat_digits.simps[of n] nat_digits.simps[of m] nat_digits_ne nat_digits_ne')
    next
      case False
      with n 1(2) have e: "nat_digits (n div 10) = nat_digits (m div 10)"
        and d: "digit_char (n mod 10) = digit_char (m mod 10)"
        by (simp_all add: nat_digits.simps[of n] nat_digits.simps[of m])
      from 1(1)[OF n e] have "n div 10 = m div 10" .
      moreover from d have "n mod 10 = m mod 10" by (simp add: digit_char_inj)
      ultimately show ?thesis by (metis div_mult_mod_eq)
    qed
  qed
qed

lemma Itoa_inj: "Itoa i = Itoa j \<Longrightarrow> i = j"
proof -
  assume e: "Itoa i = Itoa j"
  have neg: "\<And>a b. a < 0 \<Longrightarrow> \<not> b < 0 \<Longrightarrow> Itoa a \<noteq> Itoa b"
  proof
    fix a b :: int assume "a < 0" "\<not> b < 0" "Itoa a = Itoa b"
    then have "CHR ''-'' # nat_digits (nat (- a)) = nat_digits (nat b)" by (simp add: Itoa_def)
    then have "hd (nat_digits (nat b)) = CHR ''-''" by (metis list.sel(1))
    then show False by (simp add: nat_digits_hd)
  qed
  show ?thesis
  proof (cases "i < 0")
    case i: True
    show ?thesis
    proof (cases "j < 0")
      case True
      with i e have "nat_digits (nat (- i)) = nat_digits (nat (- j))" by (simp add: Itoa_def)
      then have "nat (- i) = nat (- j)" by (rule nat_digits_inj)
      with i True show ?thesis by simp
    next
      case False
      with i e neg show ?thesis by blast
    qed
  next
    case i: False
    show ?thesis
    proof (cases "j < 0")
      case True
      with i e neg[of j i] show ?thesis by auto
    next
      case False
      with i e have "nat_digits (nat i) = nat_digits (nat j)" by (simp add: Itoa_def)
      then have "nat i = nat j" by (rule nat_digits_inj)
      with i False show ?thesis by simp
    qed
  qed
qed

lemma Sprintf_s_d_inj: "inj (Sprintf_s_d b)"
  by (rule injI) (simp add: Sprintf_s_d_def Itoa_inj)

lemma name_exists_iff: "name_exists ss n \<longleftrightarrow> n \<in> Name ` set ss"
  by (induction ss) auto

lemma finite_taken: "finite {k. c < k \<and> Sprintf_s_d b k \<in> Name ` set ss}"
proof -
  have "finite (Sprintf_s_d b -` (Name ` set ss))"
    by (rule finite_vimageI) (simp_all add: Sprintf_s_d_inj)
  then show ?thesis by (rule rev_finite_subset) auto
qed

termination name_loop
proof (relation "measures [\<lambda>(b, ss, c, n). card {k. c < k \<and> Sprintf_s_d b k \<in> Name ` set ss},
                           \<lambda>(b, ss, c, n). if name_exists ss n then 1 else 0]", goal_cases)
  case 1
  then show ?case by simp
next
  case (2 b ss c n)
  let ?A = "{k. c < k \<and> Sprintf_s_d b k \<in> Name ` set ss}"
  let ?B = "{k. c + 1 < k \<and> Sprintf_s_d b k \<in> Name ` set ss}"
  show ?case
  proof (cases "Sprintf_s_d b (c + 1) \<in> Name ` set ss")
    case True
    then have "?B \<subset> ?A" by auto
    then have "card ?B < card ?A" by (simp add: finite_taken psubset_card_mono)
    then show ?thesis by simp
  next
    case False
    have "?B = ?A"
    proof (rule set_eqI)
      fix k show "k \<in> ?B \<longleftrightarrow> k \<in> ?A"
        using False by (cases "k = c + 1") auto
    qed
    with False 2 show ?thesis by (simp add: name_exists_iff)
  qed
qed


declare name_loop.simps [simp del]

text \<open>\<^verbatim>\<open>GenerateSessionName\<close>: the loop starts with \<^verbatim>\<open>counter = 1\<close> and the base name.\<close>

definition GenerateSessionName :: "string \<Rightarrow> Session list \<Rightarrow> string" where
  "GenerateSessionName repoPath existingSessions =
     (let baseName = Base repoPath
      in snd (name_loop baseName existingSessions 1 baseName))"

subsection \<open>Package tmux: the session directory\<close>

text \<open>\<^verbatim>\<open>strings.HasSuffix\<close>.\<close>

definition HasSuffix :: "string \<Rightarrow> string \<Rightarrow> bool" where
  "HasSuffix s p = (length p \<le> length s \<and> drop (length s - length p) s = p)"

text \<open>The UTF-8 encodings of the code points for which \<^verbatim>\<open>unicode.IsSpace\<close> holds:
  U+0009 to U+000D, U+0020, U+0085, U+00A0, U+1680, U+2000 to U+200A, U+2028, U+2029,
  U+202F, U+205F and U+3000.\<close>

definition White_Space :: "string list" where
  "White_Space =
     [[CHR 0x09], [CHR 0x0A], [CHR 0x0B], [CHR 0x0C], [CHR 0x0D], [CHR 0x20],
      [CHR 0xC2, CHR 0x85], [CHR 0xC2, CHR 0xA0],
      [CHR 0xE1, CHR 0x9A, CHR 0x80],
      [CHR 0xE2, CHR 0x80, CHR 0x80], [CHR 0xE2, CHR 0x80, CHR 0x81], [CHR 0xE2, CHR 0x80, CHR 0x82],
      [CHR 0xE2, CHR 0x80, CHR 0x83], [CHR 0xE2, CHR 0x80, CHR 0x84], [CHR 0xE2, CHR 0x80, CHR 0x85],
      [CHR 0xE2, CHR 0x80, CHR 0x86], [CHR 0xE2, CHR 0x80, CHR 0x87], [CHR 0xE2, CHR 0x80, CHR 0x88],
      [CHR 0xE2, CHR 0x80, CHR 0x89], [CHR 0xE2, CHR 0x80, CHR 0x8A],
      [CHR 0xE2, CHR 0x80, CHR 0xA8], [CHR 0xE2, CHR 0x80, CHR 0xA9], [CHR 0xE2, CHR 0x80, CHR 0xAF],
      [CHR 0xE2, CHR 0x81, CHR 0x9F],
      [CHR 0xE3, CHR 0x80, CHR 0x80]]"

text \<open>The white-space rune that a string starts with, and the one it ends with, as the
  bytes of its encoding. Go decodes a rune forwards (\<^verbatim>\<open>utf8.DecodeRuneInString\<close>) and
  backwards (\<^verbatim>\<open>utf8.DecodeLastRuneInString\<close>); an ill-formed or overlong sequence decodes
  to U+FFFD, which is no white space, so the rune decoded at the start (at the end) is
  white space exactly when one of the encodings above is a prefix (a suffix) of the
  string. No encoding is a prefix or a suffix of another, so at most one applies.\<close>

definition leading_space :: "string \<Rightarrow> string option" where
  "leading_space s = find (HasPrefix s) White_Space"

definition trailing_space :: "string \<Rightarrow> string option" where
  "trailing_space s = find (HasSuffix s) White_Space"

text \<open>\<^verbatim>\<open>strings.TrimLeftFunc(s, unicode.IsSpace)\<close> and
  \<^verbatim>\<open>strings.TrimRightFunc(s, unicode.IsSpace)\<close>: drop white-space runes from the start
  (from the end) until the first rune (the last rune) that is no white space.\<close>

function TrimLeftSpace :: "string \<Rightarrow> string" where
  "TrimLeftSpace s =
     (case leading_space s of
        None \<Rightarrow> s
      | Some e \<Rightarrow> TrimLeftSpace (drop (length e) s))"
  by pat_completeness auto

function TrimRightSpace :: "string \<Rightarrow> string" where
  "TrimRightSpace s =
     (case trailing_space s of
        None \<Rightarrow> s
      | Some e \<Rightarrow> TrimRightSpace (take (length s - length e) s))"
  by pat_completeness auto

lemma White_Space_nonempty: "e \<in> set White_Space \<Longrightarrow> e \<noteq> []"
  by (auto simp: White_Space_def)

lemma leading_space_Some: "leading_space s = Some e \<Longrightarrow> e \<noteq> [] \<and> HasPrefix s e"
  unfolding leading_space_def by (auto simp: find_Some_iff dest: White_Space_nonempty[OF nth_mem])

lemma trailing_space_Some: "trailing_space s = Some e \<Longrightarrow> e \<noteq> [] \<and> HasSuffix s e"
  unfolding trailing_space_def by (auto simp: find_Some_iff dest: White_Space_nonempty[OF nth_mem])

termination TrimLeftSpace
proof (relation "measure length")
  fix s e assume "leading_space s = Some e"
  then have "e \<noteq> []" "take (length e) s = e"
    using leading_space_Some[of s e] by (auto simp: HasPrefix_def)
  then have "s \<noteq> []" by auto
  with \<open>e \<noteq> []\<close> show "(drop (length e) s, s) \<in> measure length" by simp
qed simp

termination TrimRightSpace
proof (relation "measure length")
  fix s e assume "trailing_space s = Some e"
  then have "e \<noteq> []" "length e \<le> length s"
    using trailing_space_Some[of s e] by (auto simp: HasSuffix_def)
  then have "s \<noteq> []" by auto
  with \<open>e \<noteq> []\<close> show "(take (length s - length e) s, s) \<in> measure length" by simp
qed simp

declare TrimLeftSpace.simps [simp del] TrimRightSpace.simps [simp del]

text \<open>\<^verbatim>\<open>strings.TrimSpace\<close>: the string without its leading and trailing white space, as
  defined by Unicode. (The source scans ASCII white space byte by byte and hands the rest to
  \<^verbatim>\<open>TrimFunc\<close> or \<^verbatim>\<open>TrimRightFunc\<close> at the first byte outside ASCII, which gives the
  same result.)\<close>

definition TrimSpace :: "string \<Rightarrow> string" where
  "TrimSpace s = TrimRightSpace (TrimLeftSpace s)"

text \<open>\<^verbatim>\<open>strconv.Atoi\<close>: an optional sign and decimal digits, in the range of a 64-bit
  \<^verbatim>\<open>int\<close>; \<open>None\<close> is the error.\<close>

definition digit_val :: "char \<Rightarrow> int option" where
  "digit_val = map_of [(CHR ''0'', 0), (CHR ''1'', 1), (CHR ''2'', 2), (CHR ''3'', 3), (CHR ''4'', 4),
                       (CHR ''5'', 5), (CHR ''6'', 6), (CHR ''7'', 7), (CHR ''8'', 8), (CHR ''9'', 9)]"

fun digits_val :: "string \<Rightarrow> int \<Rightarrow> int option" where
  "digits_val [] acc = Some acc"
| "digits_val (c # cs) acc =
     (case digit_val c of None \<Rightarrow> None | Some d \<Rightarrow> digits_val cs (10 * acc + d))"

definition Atoi :: "string \<Rightarrow> int option" where
  "Atoi s =
     (let neg = (s \<noteq> [] \<and> hd s = CHR ''-'');
          ds = (if s \<noteq> [] \<and> (hd s = CHR ''+'' \<or> hd s = CHR ''-'') then tl s else s)
      in if ds = [] then None
         else (case digits_val ds 0 of
                 None \<Rightarrow> None
               | Some n \<Rightarrow>
                   let v = (if neg then - n else n)
                   in if v < - (2 ^ 63) \<or> 2 ^ 63 - 1 < v then None else Some v))"

text \<open>Go \<^verbatim>\<open>error\<close> values: an \<^verbatim>\<open>*exec.ExitError\<close> with its exit code, any other error of
  \<^verbatim>\<open>os/exec\<close> (its message), an \<^verbatim>\<open>fmt.Errorf\<close> message, and an \<^verbatim>\<open>fmt.Errorf\<close> message
  wrapping another error (\<^verbatim>\<open>%w\<close>).\<close>

datatype error = ExitError int | ExecError string | Errorf string | Wrapf string error

text \<open>The loop of \<^verbatim>\<open>ListSessions\<close> over the lines, with the slice \<^verbatim>\<open>sessions\<close> as
  accumulator; a session's \<^verbatim>\<open>Windows\<close> starts at Go's zero value.\<close>

fun parse_lines :: "string list \<Rightarrow> Session list \<Rightarrow> Session list" where
  "parse_lines [] sessions = sessions"
| "parse_lines (line # rest) sessions =
     (if line = [] then parse_lines rest sessions
      else let parts = Split line CHR '':''
           in if length parts \<noteq> 3 then parse_lines rest sessions
              else let session = \<lparr>Name = parts ! 0, Windows = 0, Attached = (parts ! 2 = ''1'')\<rparr>;
                       session = (if parts ! 1 \<noteq> []
                                  then (case Atoi (parts ! 1) of
                                          Some windowCount \<Rightarrow> session\<lparr>Windows := windowCount\<rparr>
                                        | None \<Rightarrow> session)
                                  else session)
                   in parse_lines rest (sessions @ [session]))"

text \<open>\<^verbatim>\<open>ListSessions\<close>, as a function of what \<^verbatim>\<open>cmd.Output()\<close> returned for
  \<^verbatim>\<open>tmux list-sessions -F ...\<close>: the error, or the standard output.\<close>

definition ListSessions :: "error + string \<Rightarrow> error + Session list" where
  "ListSessions cmd_Output =
     (case cmd_Output of
        Inl err \<Rightarrow> (case err of ExitError code \<Rightarrow> if code = 1 then Inr [] else Inl err | _ \<Rightarrow> Inl err)
      | Inr output \<Rightarrow> Inr (parse_lines (Split (TrimSpace output) (CHR 0x0A)) []))"

subsection \<open>Package config: templates\<close>

text \<open>\<^verbatim>\<open>config.WindowConfig\<close> and \<^verbatim>\<open>config.SessionTemplate\<close>; the fields \<^verbatim>\<open>Name\<close> and
  \<^verbatim>\<open>Windows\<close> carry a prefix, since \<^typ>\<open>Session\<close> has fields of these names.\<close>

record WindowConfig =
  WindowName :: string
  Command :: string

record SessionTemplate =
  TemplateName :: string
  Description :: string
  TemplateWindows :: "WindowConfig list"
  FocusedWindow :: string

subsection \<open>Package tmux: external invocations\<close>

text \<open>
  An invocation of the external multiplexer is the argument vector given to
  \<^verbatim>\<open>exec.Command("tmux", ...)\<close>. The functions that run commands take the log of the
  invocations made so far and return it extended, in order, by their own; the outcome
  of \<^verbatim>\<open>cmd.Run()\<close> is given by \<open>run\<close>, an arbitrary function of the earlier invocations and
  of the arguments (\<open>None\<close> is success).
\<close>

type_synonym argv = "string list"
type_synonym runner = "argv list \<Rightarrow> argv \<Rightarrow> error option"

text \<open>The argument vector of one window: \<^verbatim>\<open>-n name\<close> when the window is named, and the
  command wrapped in a shell that stays alive when it has one.\<close>

definition window_args :: "argv \<Rightarrow> WindowConfig \<Rightarrow> argv" where
  "window_args args window =
     (let args = (if WindowName window \<noteq> [] then args @ [''-n'', WindowName window] else args);
          args = (if Command window \<noteq> []
                  then args @ [''sh'', ''-c'', Command window @ ''; exec $SHELL'']
                  else args)
      in args)"

text \<open>The loop over \<^verbatim>\<open>template.Windows[1:]\<close>, \<open>i\<close> the loop index.\<close>

fun create_windows :: "runner \<Rightarrow> string \<Rightarrow> string \<Rightarrow> WindowConfig list \<Rightarrow> int \<Rightarrow> argv list
    \<Rightarrow> error option \<times> argv list" where
  "create_windows run name path [] i log = (None, log)"
| "create_windows run name path (window # rest) i log =
     (let windowArgs = window_args [''new-window'', ''-t'', name, ''-c'', path] window
      in case run log windowArgs of
           Some err \<Rightarrow> (Some (Wrapf (''failed to create window '' @ Itoa (i + 2) @ '': '') err),
                        log @ [windowArgs])
         | None \<Rightarrow> create_windows run name path rest (i + 1) (log @ [windowArgs]))"

definition CreateSession :: "runner \<Rightarrow> string \<Rightarrow> string \<Rightarrow> SessionTemplate \<Rightarrow> argv list
    \<Rightarrow> error option \<times> argv list" where
  "CreateSession run name path template log =
     (if length (TemplateWindows template) = 0
      then (Some (Errorf ''template must have at least one window''), log)
      else let firstWindow = hd (TemplateWindows template);
               args = window_args [''new-session'', ''-d'', ''-s'', name, ''-c'', path] firstWindow
           in case run log args of
                Some err \<Rightarrow> (Some (Wrapf ''failed to create session: '' err), log @ [args])
              | None \<Rightarrow>
                 (case create_windows run name path (tl (TemplateWindows template)) 0 (log @ [args]) of
                    (Some err, log') \<Rightarrow> (Some err, log')
                  | (None, log') \<Rightarrow>
                      if FocusedWindow template \<noteq> []
                      then (None, log' @ [[''select-window'', ''-t'', name @ '':'' @ FocusedWindow template]])
                      else (None, log')))"

text \<open>\<^verbatim>\<open>AttachToSession\<close>; \<open>insideTmux\<close> is \<^verbatim>\<open>IsInsideTmux()\<close>, whether the environment
  variable \<^verbatim>\<open>TMUX\<close> is set.\<close>

definition AttachToSession :: "runner \<Rightarrow> bool \<Rightarrow> string \<Rightarrow> argv list \<Rightarrow> error option \<times> argv list" where
  "AttachToSession run insideTmux name log =
     (let cmd = (if insideTmux then [''switch-client'', ''-t'', name]
                 else [''attach-session'', ''-t'', name])
      in (run log cmd, log @ [cmd]))"

definition RenameSession :: "runner \<Rightarrow> string \<Rightarrow> string \<Rightarrow> argv list \<Rightarrow> error option \<times> argv list" where
  "RenameSession run oldName newName log =
     (let cmd = [''rename-session'', ''-t'', oldName, newName] in (run log cmd, log @ [cmd]))"

definition KillSession :: "runner \<Rightarrow> string \<Rightarrow> argv list \<Rightarrow> error option \<times> argv list" where
  "KillSession run name log =
     (let cmd = [''kill-session'', ''-t'', name] in (run log cmd, log @ [cmd]))"

subsection \<open>Standard library: \<^verbatim>\<open>path/filepath\<close> (Unix)\<close>

text \<open>The elements of a cleaned path, left to right: empty elements and \<^verbatim>\<open>.\<close> are
  dropped, \<^verbatim>\<open>..\<close> removes the element before it, is dropped at the root, and is kept at
  the front of a relative path. \<open>out\<close> holds the elements kept so far.\<close>

fun clean_elems :: "bool \<Rightarrow> string list \<Rightarrow> string list \<Rightarrow> string list" where
  "clean_elems rooted [] out = out"
| "clean_elems rooted (e # es) out =
     (if e = [] \<or> e = ''.'' then clean_elems rooted es out
      else if e = ''..'' then
        (if out \<noteq> [] \<and> last out \<noteq> ''..'' then clean_elems rooted es (butlast out)
         else if rooted then clean_elems rooted es out
         else clean_elems rooted es (out @ [e]))
      else clean_elems rooted es (out @ [e]))"

text \<open>\<^verbatim>\<open>filepath.Clean\<close>.\<close>

definition Clean :: "string \<Rightarrow> string" where
  "Clean path =
     (if path = [] then ''.''
      else let rooted = IsPathSeparator (hd path);
               s = Join (clean_elems rooted (Split path CHR ''/'') []) ''/''
           in if rooted then ''/'' @ s else if s = [] then ''.'' else s)"

text \<open>\<^verbatim>\<open>filepath.Join\<close> of two elements, and \<^verbatim>\<open>filepath.Dir\<close>.\<close>

definition filepath_Join :: "string \<Rightarrow> string \<Rightarrow> string" where
  "filepath_Join a b =
     (if a \<noteq> [] then Clean (a @ ''/'' @ b) else if b \<noteq> [] then Clean b else [])"

definition Dir :: "string \<Rightarrow> string" where
  "Dir path = Clean (rev (dropWhile (\<lambda>c. \<not> IsPathSeparator c) (rev path)))"


subsection \<open>Package git: the repository scanner\<close>

record Repository =
  RepoName :: string
  Path :: string

text \<open>
  What the scanner sees of the file system under a root: an entry that is not a
  directory (\<^verbatim>\<open>Lstat\<close> succeeds, \<^verbatim>\<open>IsDir()\<close> is false: a file, a symbolic link), a
  directory with its entries in the order \<^verbatim>\<open>readDirNames\<close> returns them, a directory
  whose listing fails, and an entry whose \<^verbatim>\<open>Lstat\<close> fails.
\<close>

datatype fsnode = NotDir | Directory "(string \<times> fsnode) list" | DirUnreadable | LstatFails

record FileInfo =
  InfoName :: string
  IsDir :: bool

datatype walk_result = Nil_result | SkipDir

text \<open>The closure given to \<^verbatim>\<open>filepath.Walk\<close> in \<^verbatim>\<open>findReposInDirectory\<close>; it captures
  \<open>dir\<close> and appends to \<open>repos\<close>. \<open>info\<close> is \<open>None\<close> where Go passes a nil
  \<^verbatim>\<open>FileInfo\<close>, and \<open>err\<close> tells whether the error argument is non-nil.\<close>

definition walkFn :: "string \<Rightarrow> string \<Rightarrow> FileInfo option \<Rightarrow> bool \<Rightarrow> Repository list
    \<Rightarrow> walk_result \<times> Repository list" where
  "walkFn dir path info err repos =
     (if err then (Nil_result, repos)
      else case info of
        None \<Rightarrow> (Nil_result, repos)
      | Some info \<Rightarrow>
          if \<not> IsDir info then (Nil_result, repos)
          else if InfoName info = ''.git'' then
            (let repoPath = Dir path; repoName = Base repoPath
             in (SkipDir, repos @ [\<lparr>RepoName = repoName, Path = repoPath\<rparr>]))
          else if HasPrefix (InfoName info) ''.'' \<and> InfoName info \<noteq> ''.git'' then (SkipDir, repos)
          else let depth = Count (TrimPrefix path dir) CHR ''/''
               in if depth > 3 then (SkipDir, repos) else (Nil_result, repos))"

definition node_IsDir :: "fsnode \<Rightarrow> bool" where
  "node_IsDir node = (case node of Directory _ \<Rightarrow> True | DirUnreadable \<Rightarrow> True | _ \<Rightarrow> False)"

text \<open>\<^verbatim>\<open>filepath.walk\<close> (\<open>walk\<close>) and its loop over the names of a directory
  (\<open>walk_names\<close>). \<open>name\<close> is the \<^verbatim>\<open>Name()\<close> of the \<^verbatim>\<open>FileInfo\<close> of \<open>path\<close>.\<close>

fun walk :: "string \<Rightarrow> string \<Rightarrow> string \<Rightarrow> fsnode \<Rightarrow> Repository list \<Rightarrow> walk_result \<times> Repository list"
  and walk_names :: "string \<Rightarrow> string \<Rightarrow> (string \<times> fsnode) list \<Rightarrow> Repository list
    \<Rightarrow> walk_result \<times> Repository list" where
  "walk dir path name NotDir repos = walkFn dir path (Some \<lparr>InfoName = name, IsDir = False\<rparr>) False repos"
| "walk dir path name DirUnreadable repos = walkFn dir path (Some \<lparr>InfoName = name, IsDir = True\<rparr>) True repos"
| "walk dir path name LstatFails repos = (Nil_result, snd (walkFn dir path None True repos))"
| "walk dir path name (Directory entries) repos =
     (case walkFn dir path (Some \<lparr>InfoName = name, IsDir = True\<rparr>) False repos of
        (SkipDir, repos') \<Rightarrow> (SkipDir, repos')
      | (Nil_result, repos') \<Rightarrow> walk_names dir path entries repos')"
| "walk_names dir path [] repos = (Nil_result, repos)"
| "walk_names dir path ((name, node) # rest) repos =
     (let filename = filepath_Join path name
      in case walk dir filename name node repos of
           (SkipDir, repos') \<Rightarrow>
             if node_IsDir node then walk_names dir path rest repos' else (SkipDir, repos')
         | (Nil_result, repos') \<Rightarrow> walk_names dir path rest repos')"

text \<open>\<^verbatim>\<open>findReposInDirectory\<close>: \<^verbatim>\<open>filepath.Walk\<close> from the root \<open>dir\<close>, whose node is what
  \<^verbatim>\<open>os.Lstat(dir)\<close> finds. The error it returns is always nil, since the closure returns
  nothing but nil and \<^verbatim>\<open>SkipDir\<close>.\<close>

definition findReposInDirectory :: "string \<Rightarrow> fsnode \<Rightarrow> Repository list" where
  "findReposInDirectory dir root = snd (walk dir dir (Base dir) root [])"

text \<open>\<^verbatim>\<open>expandHome\<close>; \<open>home\<close> is the result of \<^verbatim>\<open>os.UserHomeDir()\<close>, \<open>None\<close> its error.\<close>

definition expandHome :: "string option \<Rightarrow> string \<Rightarrow> string" where
  "expandHome home path =
     (if HasPrefix path ''~/''
      then (case home of None \<Rightarrow> path | Some h \<Rightarrow> filepath_Join h (drop 2 path))
      else path)"

text \<open>The inner loop of \<^verbatim>\<open>FindRepositories\<close> over the repositories of one
  directory, and the outer loop over the directories. \<open>seen\<close> is the
  \<^verbatim>\<open>map[string]bool\<close>, a missing key reading as false. \<open>fs\<close> gives the node at a path,
  \<open>None\<close> where \<^verbatim>\<open>os.Stat\<close> reports that nothing exists.\<close>

fun add_unseen :: "Repository list \<Rightarrow> Repository list \<times> (string \<Rightarrow> bool)
    \<Rightarrow> Repository list \<times> (string \<Rightarrow> bool)" where
  "add_unseen [] (repos, seen) = (repos, seen)"
| "add_unseen (repo # rest) (repos, seen) =
     (if \<not> seen (Path repo)
      then add_unseen rest (repos @ [repo], seen(Path repo := True))
      else add_unseen rest (repos, seen))"

fun scan_directories :: "string option \<Rightarrow> (string \<Rightarrow> fsnode option) \<Rightarrow> string list
    \<Rightarrow> Repository list \<times> (string \<Rightarrow> bool) \<Rightarrow> Repository list \<times> (string \<Rightarrow> bool)" where
  "scan_directories home fs [] acc = acc"
| "scan_directories home fs (dir # rest) acc =
     (if dir = [] then scan_directories home fs rest acc
      else let expandedDir = expandHome home dir
           in case fs expandedDir of
                None \<Rightarrow> scan_directories home fs rest acc
              | Some root \<Rightarrow>
                  scan_directories home fs rest (add_unseen (findReposInDirectory expandedDir root) acc))"

text \<open>\<^verbatim>\<open>FindRepositories\<close>. \<^verbatim>\<open>sort.Slice\<close> orders by \<^verbatim>\<open>Name\<close> with Go's bytewise
  \<^verbatim>\<open><\<close> on strings; it is not stable, and the insertion sort here is one of the orders
  it may produce among repositories of equal name.\<close>

definition FindRepositories :: "string option \<Rightarrow> (string \<Rightarrow> fsnode option) \<Rightarrow> string list \<Rightarrow> Repository list" where
  "FindRepositories home fs directories =
     sort_key RepoName (fst (scan_directories home fs directories ([], \<lambda>_. False)))"

text \<open>A tree with a repository \<^verbatim>\<open>d\<close> four levels below the root (\<^verbatim>\<open>a/b/c/d/.git\<close>) and a
  repository \<^verbatim>\<open>e\<close> five levels below it.\<close>

definition deep_tree :: fsnode where
  "deep_tree = Directory [(''a'', Directory [(''b'', Directory [(''c'', Directory [(''d'',
       Directory [(''.git'', Directory []), (''e'', Directory [(''.git'', Directory [])])])])])])]"

section \<open>Properties\<close>

subsection \<open>Unique session names\<close>

lemma name_loop_spec:
  "name_loop b ss c n = (c', n') \<Longrightarrow>
     n' \<notin> Name ` set ss \<and> c \<le> c' \<and> (if c' = c then n' = n else n \<in> Name ` set ss \<and> n' = Sprintf_s_d b c')
     \<and> (\<forall>k. c < k \<and> k < c' \<longrightarrow> Sprintf_s_d b k \<in> Name ` set ss)"
proof (induction b ss c n rule: name_loop.induct)
  case (1 b ss c n)
  show ?case
  proof (cases "name_exists ss n")
    case False
    with "1.prems" have "c' = c" "n' = n" by (simp_all add: name_loop.simps[of b ss c n])
    with False show ?thesis by (auto simp: name_exists_iff)
  next
    case True
    with "1.prems" have r: "name_loop b ss (c + 1) (Sprintf_s_d b (c + 1)) = (c', n')"
      by (simp add: name_loop.simps[of b ss c n])
    note ih = "1.IH"[OF True r]
    from ih have le: "c + 1 \<le> c'" by simp
    have n: "n \<in> Name ` set ss" using True by (simp add: name_exists_iff)
    have n': "n' = Sprintf_s_d b c'" using ih by (cases "c' = c + 1") simp_all
    have mid: "\<forall>k. c < k \<and> k < c' \<longrightarrow> Sprintf_s_d b k \<in> Name ` set ss"
    proof (intro allI impI)
      fix k assume k: "c < k \<and> k < c'"
      show "Sprintf_s_d b k \<in> Name ` set ss"
      proof (cases "k = c + 1")
        case True
        with k have "c' \<noteq> c + 1" by simp
        with ih True show ?thesis by simp
      next
        case False
        with k ih show ?thesis by simp
      qed
    qed
    from ih le n n' mid show ?thesis by simp
  qed
qed

lemma Sprintf_s_d_neq_base: "Sprintf_s_d b k \<noteq> b"
  by (simp add: Sprintf_s_d_def)

lemma taken_bound:
  assumes b: "b \<in> Name ` set ss" and all: "\<forall>k. 1 < k \<and> k < c' \<longrightarrow> Sprintf_s_d b k \<in> Name ` set ss"
    and c': "1 < c'"
  shows "c' \<le> int (length ss) + 1"
proof -
  let ?S = "insert b (Sprintf_s_d b ` {2..<c'})"
  have sub: "?S \<subseteq> Name ` set ss" using b all by auto
  have "card (Sprintf_s_d b ` {2..<c'}) = card {2..<c'}"
    by (rule card_image) (rule inj_on_subset[OF Sprintf_s_d_inj], simp)
  moreover have "b \<notin> Sprintf_s_d b ` {2..<c'}" using Sprintf_s_d_neq_base by (metis imageE)
  ultimately have "card ?S = Suc (nat (c' - 2))" by simp
  moreover have "card ?S \<le> card (Name ` set ss)" by (rule card_mono[OF _ sub]) simp
  moreover have "card (Name ` set ss) \<le> length ss" by (metis card_image_le card_length le_trans List.finite_set)
  ultimately show ?thesis using c' by linarith
qed

lemma Itoa_2: "Itoa 2 = ''2''" by (simp add: Itoa_def nat_digits.simps digit_char_def)
lemma Itoa_3: "Itoa 3 = ''3''" by (simp add: Itoa_def nat_digits.simps digit_char_def)

text \<open>
  C1. \<^verbatim>\<open>GenerateSessionName\<close> is a function of the path
  and the session list alone. With \<open>X\<close> the final path component: the result is never the
  name of a session of the list; it is \<open>X\<close> when \<open>X\<close> is free, \<open>X_2\<close> when \<open>X\<close> is taken
  and \<open>X_2\<close> is free, \<open>X_3\<close> when both are taken and \<open>X_3\<close> is free; in general, when \<open>X\<close>
  is taken, it is \<open>X_k\<close> for the least \<open>k \<ge> 2\<close> whose name is free, and that \<open>k\<close> is at most
  the length of the list plus one (so the counter stays far inside Go's \<^verbatim>\<open>int\<close>).
\<close>

theorem GenerateSessionName_unique:
  "GenerateSessionName repoPath existing \<notin> Name ` set existing
   \<and> (Base repoPath \<notin> Name ` set existing \<longrightarrow>
        GenerateSessionName repoPath existing = Base repoPath)
   \<and> (Base repoPath \<in> Name ` set existing \<and> Base repoPath @ ''_2'' \<notin> Name ` set existing \<longrightarrow>
        GenerateSessionName repoPath existing = Base repoPath @ ''_2'')
   \<and> (Base repoPath \<in> Name ` set existing \<and> Base repoPath @ ''_2'' \<in> Name ` set existing
        \<and> Base repoPath @ ''_3'' \<notin> Name ` set existing \<longrightarrow>
        GenerateSessionName repoPath existing = Base repoPath @ ''_3'')
   \<and> (Base repoPath \<in> Name ` set existing \<longrightarrow>
        (\<exists>k. 2 \<le> k \<and> k \<le> int (length existing) + 1
           \<and> GenerateSessionName repoPath existing = Base repoPath @ ''_'' @ Itoa k
           \<and> (\<forall>j. 2 \<le> j \<and> j < k \<longrightarrow> Base repoPath @ ''_'' @ Itoa j \<in> Name ` set existing)))"
proof -
  let ?b = "Base repoPath" and ?N = "Name ` set existing"
  obtain c' n' where r: "name_loop ?b existing 1 ?b = (c', n')" by (cases "name_loop ?b existing 1 ?b")
  then have g: "GenerateSessionName repoPath existing = n'" by (simp add: GenerateSessionName_def)
  note sp = name_loop_spec[OF r]
  from sp have notin: "n' \<notin> ?N" and le: "1 \<le> c'"
    and mid: "\<forall>k. 1 < k \<and> k < c' \<longrightarrow> Sprintf_s_d ?b k \<in> ?N" by simp_all
  have c1: "c' = 1 \<Longrightarrow> n' = ?b" using sp by simp
  have c2: "c' \<noteq> 1 \<Longrightarrow> ?b \<in> ?N \<and> n' = Sprintf_s_d ?b c'" using sp by simp
  have s2: "Sprintf_s_d ?b 2 = ?b @ ''_2''" by (simp add: Sprintf_s_d_def Itoa_2)
  have s3: "Sprintf_s_d ?b 3 = ?b @ ''_3''" by (simp add: Sprintf_s_d_def Itoa_3)
  have A: "?b \<notin> ?N \<longrightarrow> n' = ?b" using c1 c2 by blast
  have gen: "?b \<in> ?N \<Longrightarrow> 2 \<le> c' \<and> c' \<le> int (length existing) + 1 \<and> n' = Sprintf_s_d ?b c'"
  proof -
    assume b: "?b \<in> ?N"
    with c1 notin have ne: "c' \<noteq> 1" by auto
    with le have gt: "1 < c'" by simp
    from taken_bound[OF b mid gt] c2[OF ne] gt show ?thesis by simp
  qed
  have B: "?b \<in> ?N \<and> ?b @ ''_2'' \<notin> ?N \<longrightarrow> n' = ?b @ ''_2''"
  proof
    assume h: "?b \<in> ?N \<and> ?b @ ''_2'' \<notin> ?N"
    with gen have k: "2 \<le> c'" "n' = Sprintf_s_d ?b c'" by simp_all
    have "\<not> 2 < c'" using mid h s2 by (metis one_less_numeral_iff semiring_norm(76))
    with k have "c' = 2" by simp
    with k s2 show "n' = ?b @ ''_2''" by simp
  qed
  have C: "?b \<in> ?N \<and> ?b @ ''_2'' \<in> ?N \<and> ?b @ ''_3'' \<notin> ?N \<longrightarrow> n' = ?b @ ''_3''"
  proof
    assume h: "?b \<in> ?N \<and> ?b @ ''_2'' \<in> ?N \<and> ?b @ ''_3'' \<notin> ?N"
    with gen have k: "2 \<le> c'" "n' = Sprintf_s_d ?b c'" by simp_all
    have "c' \<noteq> 2" using k h s2 notin by auto
    moreover have "\<not> 3 < c'"
    proof
      assume "3 < c'"
      with mid have "Sprintf_s_d ?b 3 \<in> ?N" by simp
      with h s3 show False by simp
    qed
    ultimately have "c' = 3" using k by simp
    with k s3 show "n' = ?b @ ''_3''" by simp
  qed
  have D: "?b \<in> ?N \<longrightarrow> (\<exists>k. 2 \<le> k \<and> k \<le> int (length existing) + 1
           \<and> n' = ?b @ ''_'' @ Itoa k
           \<and> (\<forall>j. 2 \<le> j \<and> j < k \<longrightarrow> ?b @ ''_'' @ Itoa j \<in> ?N))"
  proof
    assume b: "?b \<in> ?N"
    from gen[OF b] mid show "\<exists>k. 2 \<le> k \<and> k \<le> int (length existing) + 1
           \<and> n' = ?b @ ''_'' @ Itoa k
           \<and> (\<forall>j. 2 \<le> j \<and> j < k \<longrightarrow> ?b @ ''_'' @ Itoa j \<in> ?N)"
      by (intro exI[of _ c']) (simp add: Sprintf_s_d_def)
  qed
  from notin A B C D show ?thesis unfolding g by blast
qed

lemma name_loop_test: "name_loop ''test'' [\<lparr>Name = ''test'', Windows = 1, Attached = False\<rparr>,
        \<lparr>Name = ''test_2'', Windows = 1, Attached = False\<rparr>] 1 ''test'' = (3, ''test_3'')"
  by (simp add: name_loop.simps Sprintf_s_d_def Itoa_2 Itoa_3)

theorem GenerateSessionName_unique_witness:
  "GenerateSessionName ''/home/user/test''
     [\<lparr>Name = ''test'', Windows = 1, Attached = False\<rparr>,
      \<lparr>Name = ''test_2'', Windows = 1, Attached = False\<rparr>] = ''test_3''
   \<and> ''test_3'' \<notin> {''test'', ''test_2''}"
  using GenerateSessionName_unique [of "''/home/user/test''"
     "[\<lparr>Name = ''test'', Windows = 1, Attached = False\<rparr>,
      \<lparr>Name = ''test_2'', Windows = 1, Attached = False\<rparr>]"]
  by (simp add: Base_def IsPathSeparator_def)

lemma scenario_dev: "GenerateSessionName ''/home/u/dev'' [\<lparr>Name = ''dev'', Windows = 1, Attached = False\<rparr>] = ''dev_2''"
  by (simp add: GenerateSessionName_def Base_def IsPathSeparator_def name_loop.simps Sprintf_s_d_def Itoa_2)

subsection \<open>The session directory\<close>

lemma parse_lines_map:
  "parse_lines ls acc =
     acc @ map (\<lambda>line. \<lparr>Name = Split line CHR '':'' ! 0,
                        Windows = (case Atoi (Split line CHR '':'' ! 1) of
                                     Some windowCount \<Rightarrow> windowCount | None \<Rightarrow> 0),
                        Attached = (Split line CHR '':'' ! 2 = ''1'')\<rparr>)
             (filter (\<lambda>line. length (Split line CHR '':'') = 3) ls)"
proof (induction ls arbitrary: acc)
  case Nil
  then show ?case by simp
next
  case (Cons line rest)
  show ?case
  proof (cases "length (Split line CHR '':'') = 3")
    case False
    then show ?thesis using Cons.IH[of acc] by (simp add: Let_def)
  next
    case True
    then have ne: "line \<noteq> []" by auto
    have e: "Atoi [] = None" by (simp add: Atoi_def)
    show ?thesis using True ne e
      by (simp add: Let_def Cons.IH split: option.split)
  qed
qed

text \<open>
  C7. When the list-sessions invocation fails with exit status 1 ("no sessions"),
  \<^verbatim>\<open>ListSessions\<close> returns the empty list and no error; for every other failure of the
  invocation it returns that error.
\<close>

theorem ListSessions_exit_status:
  "ListSessions (Inl (ExitError 1)) = Inr []
   \<and> (\<forall>err. err \<noteq> ExitError 1 \<longrightarrow> ListSessions (Inl err) = Inl err)"
  by (auto simp: ListSessions_def split: error.split)

theorem ListSessions_exit_status_witness:
  "ListSessions (Inl (ExitError 2)) = Inl (ExitError 2)
   \<and> ListSessions (Inl (ExecError ''exec: tmux: executable file not found in $PATH''))
       = Inl (ExecError ''exec: tmux: executable file not found in $PATH'')"
  using ListSessions_exit_status by simp

text \<open>
  C8 as stated fails: an output line without three colon-separated fields is skipped
  by the \<^verbatim>\<open>continue\<close> of the loop, and the query returns a result and no error.
\<close>

theorem ListSessions_unparsable_counterexample:
  "ListSessions (Inr ''garbage'') = Inr []"
  by code_simp

text \<open>
  C8, amended. When the list-sessions invocation succeeds, \<^verbatim>\<open>ListSessions\<close> never fails
  on the format of the output. The output, without its leading and trailing Unicode white
  space, is cut at the newlines; the result has exactly one session for each line that has
  exactly three colon-separated fields, in the order of the lines, and every other line is
  skipped. The session's name is the first field, its window count is the second field read
  as a decimal integer, or 0 when the field does not parse, and it is attached exactly when
  the third field is \<^verbatim>\<open>1\<close>.
\<close>

theorem ListSessions_skips_malformed:
  "ListSessions (Inr output) =
     Inr (map (\<lambda>line. \<lparr>Name = Split line CHR '':'' ! 0,
                        Windows = (case Atoi (Split line CHR '':'' ! 1) of
                                     Some windowCount \<Rightarrow> windowCount | None \<Rightarrow> 0),
                        Attached = (Split line CHR '':'' ! 2 = ''1'')\<rparr>)
            (filter (\<lambda>line. length (Split line CHR '':'') = 3)
               (Split (TrimSpace output) CHR 0x0A)))"
  by (simp add: ListSessions_def parse_lines_map)

text \<open>Instances: a malformed line and a window count that is no number; white space
  outside ASCII around the output (U+00A0, U+3000, U+2028); and \<^verbatim>\<open>TrimSpace\<close> on byte
  strings that are not well-formed UTF-8.\<close>

lemma ListSessions_mixed:
  "ListSessions (Inr (''dev:3:1'' @ ''\<newline>'' @ ''garbage'' @ ''\<newline>'' @ ''b:x:0'' @ ''\<newline>'')) =
   Inr [\<lparr>Name = ''dev'', Windows = 3, Attached = True\<rparr>, \<lparr>Name = ''b'', Windows = 0, Attached = False\<rparr>]"
  by code_simp

lemma ListSessions_unicode_space:
  "ListSessions (Inr ([CHR 0xC2, CHR 0xA0] @ ''dev:1:0'')) =
     Inr [\<lparr>Name = ''dev'', Windows = 1, Attached = False\<rparr>]
   \<and> ListSessions (Inr (''dev:1:1'' @ [CHR 0xC2, CHR 0xA0, CHR 0x0A])) =
     Inr [\<lparr>Name = ''dev'', Windows = 1, Attached = True\<rparr>]
   \<and> ListSessions (Inr ([CHR 0xE3, CHR 0x80, CHR 0x80, CHR 0x20] @ ''a:2:0'' @ [CHR 0x0A] @ ''b:-:1''
                          @ [CHR 0x0D, CHR 0xE2, CHR 0x80, CHR 0xA8])) =
     Inr [\<lparr>Name = ''a'', Windows = 2, Attached = False\<rparr>, \<lparr>Name = ''b'', Windows = 0, Attached = True\<rparr>]"
  by code_simp

lemma TrimSpace_ill_formed:
  "TrimSpace [CHR 0xC2, CHR 0xC2, CHR 0x85] = [CHR 0xC2]
   \<and> TrimSpace [CHR 0xC2, CHR 0x85, CHR 0x80] = [CHR 0x80]
   \<and> TrimSpace (''x'' @ [CHR 0xC2, CHR 0x20]) = ''x'' @ [CHR 0xC2]
   \<and> TrimSpace [CHR 0x20, CHR 0xE2, CHR 0x80] = [CHR 0xE2, CHR 0x80]"
  by code_simp

subsection \<open>Session creation\<close>

text \<open>
  C6. For every name, path and template without windows, \<^verbatim>\<open>CreateSession\<close> fails with
  its validation error (not an error of the external tool) and issues no external call:
  the log of invocations, and with it the external session table, is as it was. The
  function has no access to the state of the interaction machine.
\<close>

theorem CreateSession_zero_windows:
  "TemplateWindows template = [] \<Longrightarrow>
     CreateSession run name path template log
       = (Some (Errorf ''template must have at least one window''), log)"
  by (simp add: CreateSession_def)

theorem CreateSession_zero_windows_witness:
  "CreateSession (\<lambda>log args. None) ''dev'' ''/home/u/dev''
     \<lparr>TemplateName = ''empty'', Description = [], TemplateWindows = [], FocusedWindow = []\<rparr> []
   = (Some (Errorf ''template must have at least one window''), [])"
  using CreateSession_zero_windows [of "\<lparr>TemplateName = ''empty'', Description = [], TemplateWindows = [], FocusedWindow = []\<rparr>"
      "\<lambda>log args. None" "''dev''" "''/home/u/dev''" "[]"]
  by simp

lemma CreateSession_coding:
  "CreateSession (\<lambda>log args. None) ''dev'' ''/p''
     \<lparr>TemplateName = ''coding'', Description = [], 
      TemplateWindows = [\<lparr>WindowName = ''editor'', Command = ''nvim .''\<rparr>, \<lparr>WindowName = ''server'', Command = []\<rparr>],
      FocusedWindow = ''editor''\<rparr> []
   = (None, [[''new-session'', ''-d'', ''-s'', ''dev'', ''-c'', ''/p'', ''-n'', ''editor'', ''sh'', ''-c'', ''nvim .; exec $SHELL''],
             [''new-window'', ''-t'', ''dev'', ''-c'', ''/p'', ''-n'', ''server''],
             [''select-window'', ''-t'', ''dev:editor'']])"
  by (simp add: CreateSession_def window_args_def)

subsection \<open>The repository scanner\<close>

lemma add_unseen_inv:
  "distinct (map Path repos) \<Longrightarrow> (\<forall>r \<in> set repos. seen (Path r)) \<Longrightarrow>
     add_unseen found (repos, seen) = (repos', seen') \<Longrightarrow>
     distinct (map Path repos') \<and> (\<forall>r \<in> set repos'. seen' (Path r))"
proof (induction found arbitrary: repos seen)
  case Nil
  then show ?case by simp
next
  case (Cons repo rest)
  show ?case
  proof (cases "seen (Path repo)")
    case True
    with Cons.prems have "add_unseen rest (repos, seen) = (repos', seen')" by simp
    from Cons.IH[OF Cons.prems(1) Cons.prems(2) this] show ?thesis .
  next
    case False
    with Cons.prems have r: "add_unseen rest (repos @ [repo], seen(Path repo := True)) = (repos', seen')"
      by simp
    have d: "distinct (map Path (repos @ [repo]))"
      using Cons.prems(1,2) False by auto
    have s: "\<forall>r \<in> set (repos @ [repo]). (seen(Path repo := True)) (Path r)"
      using Cons.prems(2) by auto
    from Cons.IH[OF d s r] show ?thesis .
  qed
qed

lemma scan_directories_inv:
  "distinct (map Path (fst acc)) \<Longrightarrow> (\<forall>r \<in> set (fst acc). snd acc (Path r)) \<Longrightarrow>
     distinct (map Path (fst (scan_directories home fs dirs acc)))
     \<and> (\<forall>r \<in> set (fst (scan_directories home fs dirs acc)). snd (scan_directories home fs dirs acc) (Path r))"
proof (induction dirs arbitrary: acc)
  case Nil
  then show ?case by simp
next
  case (Cons dir rest)
  show ?case
  proof (cases "dir = [] \<or> fs (expandHome home dir) = None")
    case True
    then show ?thesis using Cons.IH[OF Cons.prems] by (auto simp: Let_def)
  next
    case False
    then obtain root where root: "fs (expandHome home dir) = Some root" by auto
    let ?acc' = "add_unseen (findReposInDirectory (expandHome home dir) root) acc"
    obtain repos' seen' where a: "?acc' = (repos', seen')" by (cases ?acc')
    have "add_unseen (findReposInDirectory (expandHome home dir) root) (fst acc, snd acc) = (repos', seen')"
      using a by simp
    from add_unseen_inv[OF Cons.prems(1) Cons.prems(2) this]
    have "distinct (map Path (fst ?acc'))" "\<forall>r \<in> set (fst ?acc'). snd ?acc' (Path r)"
      using a by simp_all
    from Cons.IH[OF this] show ?thesis using False root by (simp add: Let_def)
  qed
qed

lemma FindRepositories_distinct_paths:
  "distinct (map Path (FindRepositories home fs directories))"
proof -
  let ?rs = "fst (scan_directories home fs directories ([], \<lambda>_. False))"
  have "distinct (map Path ?rs)" using scan_directories_inv[of "([], \<lambda>_. False)"] by simp
  moreover have "mset (map Path (sort_key RepoName ?rs)) = mset (map Path ?rs)" by simp
  ultimately show ?thesis unfolding FindRepositories_def by (metis mset_eq_imp_distinct_iff)
qed

lemma FindRepositories_sorted:
  "sorted (map RepoName (FindRepositories home fs directories))"
  by (simp add: FindRepositories_def)

text \<open>
  C9. The result never holds two entries with the same path
  (\<open>FindRepositories_distinct_paths\<close>) and is sorted by name
  (\<open>FindRepositories_sorted\<close>). The bound on the depth holds for a root written without
  a trailing separator and fails for one written with it: the closure counts the
  separators of \<^verbatim>\<open>strings.TrimPrefix(path, dir)\<close>, \<^verbatim>\<open>filepath.Walk\<close> builds the paths below
  the root with \<^verbatim>\<open>filepath.Join\<close>, which drops the trailing separator of the root, so
  that the count is one less than the depth. For the root \<^verbatim>\<open>/r/\<close> the scan enters the
  directory \<^verbatim>\<open>/r/a/b/c/d\<close>, four levels below the root, and reports it as a repository;
  for the same tree under the root \<^verbatim>\<open>/r\<close> it does not.
\<close>

theorem FindRepositories_trailing_separator_depth:
  "FindRepositories None (\<lambda>p. if p = ''/r/'' then Some deep_tree else None) [''/r/'']
     = [\<lparr>RepoName = ''d'', Path = ''/r/a/b/c/d''\<rparr>]
   \<and> FindRepositories None (\<lambda>p. if p = ''/r'' then Some deep_tree else None) [''/r''] = []"
  by code_simp

end
